theory Spec2Isabelle
  imports Main "HOL-Library.Signed_Division"
begin

section \<open>Lowering of the XLA dialect to the Standard dialect\<close>

text \<open>
  A shallow embedding of \<^verbatim>\<open>tensorflow/compiler/mlir/xla/transforms/legalize_to_standard.cc\<close>:
  the three hand-written rewrite patterns \<^verbatim>\<open>CompareIConvert\<close>, \<^verbatim>\<open>CompareFConvert\<close> and
  \<^verbatim>\<open>ConvertIotaOp\<close>, the pattern list built by \<^verbatim>\<open>PopulateXlaToStdPatterns\<close> and the pass
  entry point \<^verbatim>\<open>LegalizeToStandard::runOnFunction\<close>.
\<close>

subsection \<open>The IR: types, values, operations\<close>

text \<open>
  Element types. \<^verbatim>\<open>isa<IntegerType>()\<close> and \<^verbatim>\<open>isa<FloatType>()\<close> become the discriminators
  of the datatype; the argument of an integer or float type is its bitwidth.
\<close>

datatype Type =
    IntegerType nat
  | FloatType nat
  | ComplexType Type

fun isa_IntegerType :: "Type \<Rightarrow> bool" where
  "isa_IntegerType (IntegerType _) = True"
| "isa_IntegerType _ = False"

fun isa_FloatType :: "Type \<Rightarrow> bool" where
  "isa_FloatType (FloatType _) = True"
| "isa_FloatType _ = False"

text \<open>
  A ranked shaped type: the dimension sizes are \<^verbatim>\<open>int64_t\<close> values (a negative size
  stands for a dynamic dimension) and the element type is fixed.
\<close>

record ShapedType =
  getShape :: "int list"
  getElementType :: Type

text \<open>An SSA value: its identity and its (tensor) type.\<close>

datatype Value = Value (getId: nat) (getType: ShapedType)

text \<open>
  The comparison predicates of the Standard dialect. \<open>NumPredicates\<close> is the
  one-past-the-end enumerator that \<^verbatim>\<open>CompareFConvert\<close> uses as its "no such predicate" value.
\<close>

datatype CmpIPredicate = eq | ne | slt | sle | sgt | sge | ult | ule | ugt | uge

datatype CmpFPredicate =
    AlwaysFalse | OEQ | OGT | OGE | OLT | OLE | ONE | ORD
  | UEQ | UGT | UGE | ULT | ULE | UNE | UNO | AlwaysTrue | NumPredicates

text \<open>
  A dense integer elements attribute: the shaped type and the flat row-major sequence of
  element values, each given as the unsigned value of its bit pattern.
\<close>

datatype DenseIntElementsAttr = DenseIntElementsAttr ShapedType "int list"

text \<open>
  Operations. \<open>CompareOp lhs rhs comparison_direction\<close> is \<^verbatim>\<open>xla_hlo.compare\<close>,
  \<open>IotaOp type iota_dimension\<close> is \<^verbatim>\<open>xla_hlo.iota\<close> with its result type and its
  64-bit dimension attribute (read by \<^verbatim>\<open>getSExtValue\<close>); \<open>CmpIOp\<close>, \<open>CmpFOp\<close> and
  \<open>ConstantOp\<close> are the Standard-dialect operations the patterns create. Every other
  operation is an \<open>OtherOp\<close>.
\<close>

datatype operation =
    CompareOp Value Value string
  | IotaOp ShapedType int
  | CmpIOp CmpIPredicate Value Value
  | CmpFOp CmpFPredicate Value Value
  | ConstantOp DenseIntElementsAttr
  | OtherOp string "Value list"

subsection \<open>The pattern rewriter\<close>

text \<open>
  \<^verbatim>\<open>matchAndRewrite\<close> returns \<^verbatim>\<open>matchFailure()\<close> or \<^verbatim>\<open>matchSuccess()\<close> and acts on the IR
  only through the \<^verbatim>\<open>PatternRewriter\<close> it is handed. The rewriter is modelled by the list of
  replacements it has been asked to make, oldest first: \<open>(op, new)\<close> records a call
  \<^verbatim>\<open>rewriter.replaceOpWithNewOp<...>(op, ...)\<close> creating \<open>new\<close>. A pattern that returns the
  rewriter as it received it has left the IR untouched.
\<close>

datatype PatternMatchResult = matchFailure | matchSuccess

type_synonym PatternRewriter = "(operation \<times> operation) list"

definition replaceOpWithNewOp :: "PatternRewriter \<Rightarrow> operation \<Rightarrow> operation \<Rightarrow> PatternRewriter" where
  "replaceOpWithNewOp rewriter op new_op = rewriter @ [(op, new_op)]"

subsection \<open>The comparison patterns\<close>

text \<open>
  The two \<^verbatim>\<open>llvm::StringSwitch\<close> tables. The integer one defaults to \<^verbatim>\<open>llvm::None\<close>, the
  float one to \<open>NumPredicates\<close>.
\<close>

definition StringSwitch_CmpIPredicate :: "string \<Rightarrow> CmpIPredicate option" where
  "StringSwitch_CmpIPredicate comparison_direction =
     (if comparison_direction = ''EQ'' then Some eq
      else if comparison_direction = ''NE'' then Some ne
      else if comparison_direction = ''LT'' then Some slt
      else if comparison_direction = ''LE'' then Some sle
      else if comparison_direction = ''GT'' then Some sgt
      else if comparison_direction = ''GE'' then Some sge
      else None)"

definition StringSwitch_CmpFPredicate :: "string \<Rightarrow> CmpFPredicate" where
  "StringSwitch_CmpFPredicate comparison_direction =
     (if comparison_direction = ''EQ'' then OEQ
      else if comparison_direction = ''NE'' then UNE
      else if comparison_direction = ''LT'' then OLT
      else if comparison_direction = ''LE'' then OLE
      else if comparison_direction = ''GT'' then OGT
      else if comparison_direction = ''GE'' then OGE
      else NumPredicates)"

text \<open>
  Both patterns are \<^verbatim>\<open>OpRewritePattern<xla_hlo::CompareOp>\<close>: they are only ever offered
  comparison operations, which is the last equation of each function.
\<close>

fun CompareIConvert :: "operation \<Rightarrow> PatternRewriter \<Rightarrow> PatternMatchResult \<times> PatternRewriter" where
  "CompareIConvert (CompareOp lhs rhs comparison_direction) rewriter =
     (let lhs_type = getType lhs;
          rhs_type = getType rhs
      in if getShape lhs_type \<noteq> getShape rhs_type then (matchFailure, rewriter)
         else if \<not> isa_IntegerType (getElementType lhs_type) \<or>
                 \<not> isa_IntegerType (getElementType rhs_type)
           then (matchFailure, rewriter)
         else (case StringSwitch_CmpIPredicate comparison_direction of
                 None \<Rightarrow> (matchFailure, rewriter)
               | Some compare_predicate \<Rightarrow>
                   (matchSuccess,
                    replaceOpWithNewOp rewriter (CompareOp lhs rhs comparison_direction)
                      (CmpIOp compare_predicate lhs rhs))))"
| "CompareIConvert _ rewriter = (matchFailure, rewriter)"

fun CompareFConvert :: "operation \<Rightarrow> PatternRewriter \<Rightarrow> PatternMatchResult \<times> PatternRewriter" where
  "CompareFConvert (CompareOp lhs rhs comparison_direction) rewriter =
     (let lhs_type = getType lhs;
          rhs_type = getType rhs
      in if getShape lhs_type \<noteq> getShape rhs_type then (matchFailure, rewriter)
         else if \<not> isa_FloatType (getElementType lhs_type) \<or>
                 \<not> isa_FloatType (getElementType rhs_type)
           then (matchFailure, rewriter)
         else (let compare_predicate = StringSwitch_CmpFPredicate comparison_direction
               in if compare_predicate = NumPredicates then (matchFailure, rewriter)
                  else (matchSuccess,
                        replaceOpWithNewOp rewriter (CompareOp lhs rhs comparison_direction)
                          (CmpFOp compare_predicate lhs rhs))))"
| "CompareFConvert _ rewriter = (matchFailure, rewriter)"

subsection \<open>The host IR library used by the iota pattern\<close>

text \<open>
  The ways the iota pattern can abort instead of returning: an assertion of the host
  library fails, a signed integer computation leaves its type, or an integer division has
  a zero divisor.
\<close>

datatype error = AssertionFailure | SignedOverflow | DivisionByZero

definition INT_MAX :: int where
  "INT_MAX = 2147483647"

definition INT64_MAX :: int where
  "INT64_MAX = 9223372036854775807"

text \<open>
  Modelled from the spec: \<^verbatim>\<open>ShapedType::getNumElements\<close> belongs to the host IR library
  (MLIR), whose sources are not part of this repository. The spec gives the total element
  count as the product \<open>d0 * d1 * ... * dn-1\<close> of the dimension sizes. The library
  asserts that the shape is static (no dimension size is negative) and multiplies the
  sizes into an \<^verbatim>\<open>int64_t\<close> accumulator, where leaving the type is an overflow.
\<close>

definition hasStaticShape :: "ShapedType \<Rightarrow> bool" where
  "hasStaticShape t = list_all (\<lambda>d. 0 \<le> d) (getShape t)"

text \<open>
  Modelled from the spec: the accumulation loop of \<^verbatim>\<open>getNumElements\<close> (host IR library),
  \<^verbatim>\<open>num *= dim\<close> over the dimension sizes, in \<^verbatim>\<open>int64_t\<close>.
\<close>

fun num_elements_loop :: "int \<Rightarrow> int list \<Rightarrow> error + int" where
  "num_elements_loop num [] = Inr num"
| "num_elements_loop num (dim # shape) =
     (if INT64_MAX < num * dim then Inl SignedOverflow
      else num_elements_loop (num * dim) shape)"

text \<open>
  Modelled from the spec: \<^verbatim>\<open>getNumElements\<close> (host IR library), the total element count
  of a static shape.
\<close>

definition getNumElements :: "ShapedType \<Rightarrow> error + int" where
  "getNumElements t =
     (if \<not> hasStaticShape t then Inl AssertionFailure
      else num_elements_loop 1 (getShape t))"

text \<open>
  Modelled from the spec: \<^verbatim>\<open>ShapedType::getDimSize\<close> belongs to the host IR library and is
  not part of this repository. The spec reads it as \<open>shape[dim]\<close>, the size along one
  dimension; the library asserts that the index is within the rank.
\<close>

definition getDimSize :: "ShapedType \<Rightarrow> int \<Rightarrow> error + int" where
  "getDimSize t i =
     (if 0 \<le> i \<and> i < int (length (getShape t)) then Inr (getShape t ! nat i)
      else Inl AssertionFailure)"

text \<open>
  Modelled from the spec: the constructor \<^verbatim>\<open>APInt(numBits, val)\<close> belongs to LLVM and is not
  part of this repository. The spec has each value "stored using the result element's
  bitwidth": the constructor takes \<open>val\<close> as a \<^verbatim>\<open>uint64_t\<close> and keeps its low \<open>numBits\<close>
  bits. An \<open>APInt\<close> is represented by the unsigned value of its bit pattern.
\<close>

definition APInt :: "nat \<Rightarrow> int \<Rightarrow> int" where
  "APInt numBits val = (val mod 2 ^ 64) mod 2 ^ numBits"

subsection \<open>The iota pattern\<close>

text \<open>
  The first loop of \<^verbatim>\<open>ConvertIotaOp::matchAndRewrite\<close>:
  \<^verbatim>\<open>for (int i = 0; i <= dimension; i++) increase_stride /= output_type.getDimSize(i);\<close>
  The division is the truncating division of C++ on \<^verbatim>\<open>int64_t\<close>; a zero divisor aborts.
  The counter is a C \<^verbatim>\<open>int\<close>, so \<^verbatim>\<open>i++\<close> at \<open>INT_MAX\<close> overflows.
\<close>

function stride_loop :: "ShapedType \<Rightarrow> int \<Rightarrow> int \<Rightarrow> int \<Rightarrow> error + int" where
  "stride_loop output_type dimension i increase_stride =
     (if i \<le> dimension then
        (case getDimSize output_type i of
           Inl e \<Rightarrow> Inl e
         | Inr d \<Rightarrow>
             if d = 0 then Inl DivisionByZero
             else if i = INT_MAX then Inl SignedOverflow
             else stride_loop output_type dimension (i + 1) (increase_stride sdiv d))
      else Inr increase_stride)"
  by pat_completeness auto
termination
  by (relation "measure (\<lambda>(output_type, dimension, i, increase_stride). nat (dimension + 1 - i))")
    auto

text \<open>
  The second loop:
  \<^verbatim>\<open>for (int i = 0; i < output_size; i++) {
    int64_t value = (current_value / increase_stride) % max_dim_size;
    values.push_back(APInt(bitwidth, value));
    ++current_value; }\<close>
\<close>

function values_loop ::
  "nat \<Rightarrow> int \<Rightarrow> int \<Rightarrow> int \<Rightarrow> int \<Rightarrow> int \<Rightarrow> int list \<Rightarrow> error + int list" where
  "values_loop bitwidth output_size increase_stride max_dim_size i current_value values =
     (if i < output_size then
        if increase_stride = 0 \<or> max_dim_size = 0 then Inl DivisionByZero
        else
          (let value = (current_value sdiv increase_stride) smod max_dim_size;
               values' = values @ [APInt bitwidth value]
           in if i = INT_MAX then Inl SignedOverflow
              else values_loop bitwidth output_size increase_stride max_dim_size
                     (i + 1) (current_value + 1) values')
      else Inr values)"
  by pat_completeness auto
termination
  by (relation "measure (\<lambda>(bitwidth, output_size, increase_stride, max_dim_size, i,
         current_value, values). nat (output_size - i))") auto

declare stride_loop.simps [simp del] values_loop.simps [simp del]

text \<open>
  \<^verbatim>\<open>ConvertIotaOp::matchAndRewrite\<close>. The pattern is an \<^verbatim>\<open>OpRewritePattern<xla_hlo::IotaOp>\<close>:
  it is only ever offered iota operations (the last equation). The case on the element
  type is the \<^verbatim>\<open>isa<IntegerType>()\<close> test together with \<^verbatim>\<open>getIntOrFloatBitWidth()\<close>.
\<close>

fun ConvertIotaOp ::
  "operation \<Rightarrow> PatternRewriter \<Rightarrow> error + PatternMatchResult \<times> PatternRewriter" where
  "ConvertIotaOp (IotaOp output_type iota_dimension) rewriter =
     (case getElementType output_type of
        IntegerType bitwidth \<Rightarrow>
          (case getNumElements output_type of
             Inl e \<Rightarrow> Inl e
           | Inr output_size \<Rightarrow>
               (let dimension = iota_dimension in
                case getDimSize output_type dimension of
                  Inl e \<Rightarrow> Inl e
                | Inr max_dim_size \<Rightarrow>
                    (case stride_loop output_type dimension 0 output_size of
                       Inl e \<Rightarrow> Inl e
                     | Inr increase_stride \<Rightarrow>
                         (case values_loop bitwidth output_size increase_stride max_dim_size
                                 0 0 [] of
                            Inl e \<Rightarrow> Inl e
                          | Inr values \<Rightarrow>
                              Inr (matchSuccess,
                                   replaceOpWithNewOp rewriter (IotaOp output_type iota_dimension)
                                     (ConstantOp (DenseIntElementsAttr output_type values)))))))
      | _ \<Rightarrow> Inr (matchFailure, rewriter))"
| "ConvertIotaOp _ rewriter = Inr (matchFailure, rewriter)"

subsection \<open>The iota values as the specification words them\<close>

text \<open>
  The closed forms of the specification, to be compared with the loops above:
  the stride as \<open>total / (d0 * ... * ddim)\<close>, the product of the dimension sizes after
  \<open>dim\<close>, and the flat row-major sequence of the coordinates along \<open>dim\<close>,
  \<open>(k / stride) mod shape[dim]\<close> for \<open>k\<close> in \<open>[0, total)\<close>.
\<close>

definition iota_stride :: "int list \<Rightarrow> nat \<Rightarrow> int" where
  "iota_stride shape dim = prod_list shape div prod_list (take (Suc dim) shape)"

definition trailing_size :: "int list \<Rightarrow> nat \<Rightarrow> int" where
  "trailing_size shape dim = prod_list (drop (Suc dim) shape)"

definition iota_coordinates :: "int list \<Rightarrow> nat \<Rightarrow> int list" where
  "iota_coordinates shape dim =
     map (\<lambda>k. (k div trailing_size shape dim) mod (shape ! dim)) [0..prod_list shape - 1]"

subsection \<open>The pattern list and the pass\<close>

text \<open>
  A rewrite pattern as the driver sees it: a function from the operation and the rewriter
  to an abort or a match result with the updated rewriter.
\<close>

type_synonym RewritePattern =
  "operation \<Rightarrow> PatternRewriter \<Rightarrow> error + PatternMatchResult \<times> PatternRewriter"

text \<open>
  \<^verbatim>\<open>PopulateXlaToStdPatterns\<close> first adds the patterns generated from the declarative rule
  description (\<^verbatim>\<open>generated_legalize_to_standard.inc\<close>, not among the sources: they are the
  parameter \<open>generated\<close>), then inserts \<^verbatim>\<open>CompareFConvert\<close>, \<^verbatim>\<open>CompareIConvert\<close> and
  \<^verbatim>\<open>ConvertIotaOp\<close>, in this order.
\<close>

definition PopulateXlaToStdPatterns :: "RewritePattern list \<Rightarrow> RewritePattern list" where
  "PopulateXlaToStdPatterns generated =
     generated @
     [\<lambda>op rewriter. Inr (CompareFConvert op rewriter),
      \<lambda>op rewriter. Inr (CompareIConvert op rewriter),
      ConvertIotaOp]"

text \<open>
  Modelled from the spec: the fixpoint driver \<^verbatim>\<open>applyPatternsGreedily\<close> belongs to the host
  IR library and is not part of this repository. The spec describes it: the driver
  iterates over every operation of the function body; it offers each operation to each
  rule, in the registration order, until one applies a replacement or all report no-match
  (\<open>apply_first\<close>); a full sweep counts its replacements (\<open>sweep\<close>); if at least one
  replacement occurred the driver sweeps again, and if a full sweep produces zero
  replacements it has converged and stops. A function body is the list of its operations;
  a replacement puts the new operation in the place of the old one. The driver need not
  terminate for arbitrary rules, so it is a partial function: \<open>None\<close> is "no result".
  An abort of a pattern aborts the pass.
\<close>

definition replacement_of :: "PatternRewriter \<Rightarrow> operation \<Rightarrow> operation" where
  "replacement_of rewriter op = (case map_of rewriter op of None \<Rightarrow> op | Some new_op \<Rightarrow> new_op)"

text \<open>
  Modelled from the spec: one operation is offered to the rules of the list in turn, each
  with a fresh rewriter; the first rule that matches wins (part of the host library's
  driver).
\<close>

fun apply_first :: "RewritePattern list \<Rightarrow> operation \<Rightarrow> error + operation option" where
  "apply_first [] op = Inr None"
| "apply_first (pattern # patterns) op =
     (case pattern op [] of
        Inl e \<Rightarrow> Inl e
      | Inr (matchFailure, rewriter) \<Rightarrow> apply_first patterns op
      | Inr (matchSuccess, rewriter) \<Rightarrow> Inr (Some (replacement_of rewriter op)))"

text \<open>
  Modelled from the spec: one full sweep over the operations of the body, returning the new
  body and the number of replacements (part of the host library's driver).
\<close>

fun sweep :: "RewritePattern list \<Rightarrow> operation list \<Rightarrow> error + operation list \<times> nat" where
  "sweep patterns [] = Inr ([], 0)"
| "sweep patterns (op # ops) =
     (case apply_first patterns op of
        Inl e \<Rightarrow> Inl e
      | Inr replaced \<Rightarrow>
          (case sweep patterns ops of
             Inl e \<Rightarrow> Inl e
           | Inr (ops', n) \<Rightarrow>
               (case replaced of
                  None \<Rightarrow> Inr (op # ops', n)
                | Some new_op \<Rightarrow> Inr (new_op # ops', Suc n))))"

text \<open>
  Modelled from the spec: the driver \<^verbatim>\<open>applyPatternsGreedily\<close> of the host library sweeps
  until a full sweep makes zero replacements.
\<close>

partial_function (option) applyPatternsGreedily ::
  "RewritePattern list \<Rightarrow> operation list \<Rightarrow> (error + operation list) option" where
  "applyPatternsGreedily patterns body =
     (case sweep patterns body of
        Inl e \<Rightarrow> Some (Inl e)
      | Inr (body', replacements) \<Rightarrow>
          if replacements = 0 then Some (Inr body')
          else applyPatternsGreedily patterns body')"

text \<open>
  \<^verbatim>\<open>LegalizeToStandard::runOnFunction\<close>: populate the pattern list and run the driver on
  the function.
\<close>

definition runOnFunction :: "RewritePattern list \<Rightarrow> operation list \<Rightarrow> (error + operation list) option" where
  "runOnFunction generated body = applyPatternsGreedily (PopulateXlaToStdPatterns generated) body"

subsection \<open>The comparison patterns: results\<close>

text \<open>
  C2. A comparison whose operands have the same shape and integer element types, with one
  of the six recognised directions, is replaced by the pattern \<open>CompareIConvert\<close> with an
  integer compare on the same two operands, whose predicate comes from the table
  EQ to eq, NE to ne, LT to slt, LE to sle, GT to sgt, GE to sge (the signed predicates).
\<close>

theorem CompareIConvert_table:
  assumes "getShape (getType lhs) = getShape (getType rhs)"
    and "isa_IntegerType (getElementType (getType lhs))"
    and "isa_IntegerType (getElementType (getType rhs))"
    and "(direction, predicate) \<in>
           {(''EQ'', eq), (''NE'', ne), (''LT'', slt), (''LE'', sle), (''GT'', sgt), (''GE'', sge)}"
  shows "CompareIConvert (CompareOp lhs rhs direction) rewriter =
           (matchSuccess,
            rewriter @ [(CompareOp lhs rhs direction, CmpIOp predicate lhs rhs)])"
  using assms
  by (auto simp: StringSwitch_CmpIPredicate_def replaceOpWithNewOp_def)

theorem CompareIConvert_table_witness:
  "CompareIConvert
     (CompareOp (Value 0 \<lparr>getShape = [2, 3], getElementType = IntegerType 32\<rparr>)
                (Value 1 \<lparr>getShape = [2, 3], getElementType = IntegerType 32\<rparr>) ''LT'') [] =
   (matchSuccess,
    [(CompareOp (Value 0 \<lparr>getShape = [2, 3], getElementType = IntegerType 32\<rparr>)
                (Value 1 \<lparr>getShape = [2, 3], getElementType = IntegerType 32\<rparr>) ''LT'',
      CmpIOp slt (Value 0 \<lparr>getShape = [2, 3], getElementType = IntegerType 32\<rparr>)
                 (Value 1 \<lparr>getShape = [2, 3], getElementType = IntegerType 32\<rparr>))])"
proof -
  have "CompareIConvert
     (CompareOp (Value 0 \<lparr>getShape = [2, 3], getElementType = IntegerType 32\<rparr>)
                (Value 1 \<lparr>getShape = [2, 3], getElementType = IntegerType 32\<rparr>) ''LT'') [] =
   (matchSuccess,
    [] @ [(CompareOp (Value 0 \<lparr>getShape = [2, 3], getElementType = IntegerType 32\<rparr>)
                (Value 1 \<lparr>getShape = [2, 3], getElementType = IntegerType 32\<rparr>) ''LT'',
      CmpIOp slt (Value 0 \<lparr>getShape = [2, 3], getElementType = IntegerType 32\<rparr>)
                 (Value 1 \<lparr>getShape = [2, 3], getElementType = IntegerType 32\<rparr>))])"
    by (rule CompareIConvert_table) simp_all
  then show ?thesis by (simp only: append_Nil)
qed

text \<open>
  C3. A comparison whose operands have the same shape and float element types, with one of
  the six recognised directions, is replaced by the pattern \<open>CompareFConvert\<close> with a float
  compare on the same two operands, whose predicate comes from the table
  EQ to OEQ, NE to UNE, LT to OLT, LE to OLE, GT to OGT, GE to OGE: equality and the four
  order relations are ordered, inequality is unordered.
\<close>

theorem CompareFConvert_table:
  assumes "getShape (getType lhs) = getShape (getType rhs)"
    and "isa_FloatType (getElementType (getType lhs))"
    and "isa_FloatType (getElementType (getType rhs))"
    and "(direction, predicate) \<in>
           {(''EQ'', OEQ), (''NE'', UNE), (''LT'', OLT), (''LE'', OLE), (''GT'', OGT), (''GE'', OGE)}"
  shows "CompareFConvert (CompareOp lhs rhs direction) rewriter =
           (matchSuccess,
            rewriter @ [(CompareOp lhs rhs direction, CmpFOp predicate lhs rhs)])"
  using assms
  by (auto simp: StringSwitch_CmpFPredicate_def replaceOpWithNewOp_def)

theorem CompareFConvert_table_witness:
  "CompareFConvert
     (CompareOp (Value 0 \<lparr>getShape = [4], getElementType = FloatType 32\<rparr>)
                (Value 1 \<lparr>getShape = [4], getElementType = FloatType 32\<rparr>) ''NE'') [] =
   (matchSuccess,
    [(CompareOp (Value 0 \<lparr>getShape = [4], getElementType = FloatType 32\<rparr>)
                (Value 1 \<lparr>getShape = [4], getElementType = FloatType 32\<rparr>) ''NE'',
      CmpFOp UNE (Value 0 \<lparr>getShape = [4], getElementType = FloatType 32\<rparr>)
                 (Value 1 \<lparr>getShape = [4], getElementType = FloatType 32\<rparr>))])"
proof -
  have "CompareFConvert
     (CompareOp (Value 0 \<lparr>getShape = [4], getElementType = FloatType 32\<rparr>)
                (Value 1 \<lparr>getShape = [4], getElementType = FloatType 32\<rparr>) ''NE'') [] =
   (matchSuccess,
    [] @ [(CompareOp (Value 0 \<lparr>getShape = [4], getElementType = FloatType 32\<rparr>)
                (Value 1 \<lparr>getShape = [4], getElementType = FloatType 32\<rparr>) ''NE'',
      CmpFOp UNE (Value 0 \<lparr>getShape = [4], getElementType = FloatType 32\<rparr>)
                 (Value 1 \<lparr>getShape = [4], getElementType = FloatType 32\<rparr>))])"
    by (rule CompareFConvert_table) simp_all
  then show ?thesis by (simp only: append_Nil)
qed

text \<open>
  C4. When the shapes of the two operands of a comparison differ, both comparison patterns
  return \<open>matchFailure\<close> and hand the rewriter back as they received it: nothing is replaced.
\<close>

theorem Compare_shape_mismatch:
  assumes "getShape (getType lhs) \<noteq> getShape (getType rhs)"
  shows "CompareIConvert (CompareOp lhs rhs direction) rewriter = (matchFailure, rewriter) \<and>
         CompareFConvert (CompareOp lhs rhs direction) rewriter = (matchFailure, rewriter)"
  using assms by simp

theorem Compare_shape_mismatch_witness:
  "CompareIConvert
     (CompareOp (Value 0 \<lparr>getShape = [2, 3], getElementType = IntegerType 32\<rparr>)
                (Value 1 \<lparr>getShape = [3], getElementType = IntegerType 32\<rparr>) ''EQ'') [] =
     (matchFailure, []) \<and>
   CompareFConvert
     (CompareOp (Value 0 \<lparr>getShape = [2, 3], getElementType = IntegerType 32\<rparr>)
                (Value 1 \<lparr>getShape = [3], getElementType = IntegerType 32\<rparr>) ''EQ'') [] =
     (matchFailure, [])"
  by (rule Compare_shape_mismatch) simp

text \<open>
  C5. When the direction string of a comparison is none of EQ, NE, LT, LE, GT, GE, both
  comparison patterns return \<open>matchFailure\<close> (they are total: there is no crash) and hand
  the rewriter back as they received it, whatever the operand types are.
\<close>

theorem Compare_unknown_direction:
  assumes "direction \<notin> {''EQ'', ''NE'', ''LT'', ''LE'', ''GT'', ''GE''}"
  shows "CompareIConvert (CompareOp lhs rhs direction) rewriter = (matchFailure, rewriter) \<and>
         CompareFConvert (CompareOp lhs rhs direction) rewriter = (matchFailure, rewriter)"
  using assms
  by (simp add: StringSwitch_CmpIPredicate_def StringSwitch_CmpFPredicate_def Let_def)

theorem Compare_unknown_direction_witness:
  "CompareIConvert
     (CompareOp (Value 0 \<lparr>getShape = [2], getElementType = IntegerType 32\<rparr>)
                (Value 1 \<lparr>getShape = [2], getElementType = IntegerType 32\<rparr>) ''XX'') [] =
     (matchFailure, []) \<and>
   CompareFConvert
     (CompareOp (Value 0 \<lparr>getShape = [2], getElementType = FloatType 32\<rparr>)
                (Value 1 \<lparr>getShape = [2], getElementType = FloatType 32\<rparr>) ''XX'') [] =
     (matchFailure, [])"
proof -
  have h: "''XX'' \<notin> {''EQ'', ''NE'', ''LT'', ''LE'', ''GT'', ''GE''}"
    by simp
  show ?thesis
    using Compare_unknown_direction [OF h] by (simp only: simp_thms)
qed

subsection \<open>The iota pattern: the two loops\<close>

lemma num_elements_loop_Inr:
  "num_elements_loop num shape = Inr n \<Longrightarrow> n = num * prod_list shape"
proof (induction shape arbitrary: num)
  case Nil
  then show ?case by simp
next
  case (Cons dim shape)
  then have "num_elements_loop (num * dim) shape = Inr n"
    by (simp split: if_splits)
  from Cons.IH [OF this] show ?case by (simp add: mult.assoc)
qed

lemma getNumElements_Inr:
  assumes "getNumElements t = Inr n"
  shows "n = prod_list (getShape t)" and "\<forall>d\<in>set (getShape t). 0 \<le> d"
  using assms num_elements_loop_Inr [of 1 "getShape t" n]
  by (auto simp: getNumElements_def hasStaticShape_def list_all_iff split: if_splits)

lemma sdiv_nonneg: "0 \<le> a \<Longrightarrow> 0 < b \<Longrightarrow> a sdiv b = a div b" for a b :: int
  by (cases "a = 0") (simp_all add: signed_divide_int_def)

lemma smod_nonneg: "0 \<le> a \<Longrightarrow> 0 < b \<Longrightarrow> a smod b = a mod b" for a b :: int
  by (cases "a = 0") (simp_all add: signed_modulo_int_def)

lemma stride_loop_result:
  assumes "0 \<le> i" and "i \<le> dimension + 1" and "i \<le> INT_MAX"
    and "dimension < int (length (getShape t))"
    and "\<forall>j. i \<le> j \<and> j \<le> dimension \<longrightarrow> 0 < getShape t ! nat j"
    and "0 \<le> s"
  shows "stride_loop t dimension i s =
           (if INT_MAX \<le> dimension then Inl SignedOverflow
            else Inr (s div prod_list (drop (nat i) (take (nat (dimension + 1)) (getShape t)))))"
  using assms
proof (induction t dimension i s rule: stride_loop.induct)
  case (1 t dimension i s)
  show ?case
  proof (cases "i \<le> dimension")
    case False
    with "1.prems" have "nat (dimension + 1) \<le> nat i" and "\<not> INT_MAX \<le> dimension"
      by simp_all
    moreover from this have "drop (nat i) (take (nat (dimension + 1)) (getShape t)) = []"
      by simp
    ultimately show ?thesis using False by (simp add: stride_loop.simps)
  next
    case True
    let ?d = "getShape t ! nat i"
    from True "1.prems" have get: "getDimSize t i = Inr ?d"
      by (simp add: getDimSize_def)
    from True "1.prems" have pos: "0 < ?d" by simp
    then have nz: "?d \<noteq> 0" by simp
    show ?thesis
    proof (cases "i = INT_MAX")
      case ov: True
      from get nz ov \<open>i \<le> dimension\<close> show ?thesis
        by (subst stride_loop.simps) simp
    next
      case noov: False
      from pos "1.prems" have eq: "s sdiv ?d = s div ?d" by (simp add: sdiv_nonneg)
      from pos "1.prems" have nonneg: "0 \<le> s sdiv ?d" by (simp add: eq pos_imp_zdiv_nonneg_iff)
      have IH: "stride_loop t dimension (i + 1) (s sdiv ?d) =
          (if INT_MAX \<le> dimension then Inl SignedOverflow
           else Inr ((s sdiv ?d) div
                     prod_list (drop (nat (i + 1)) (take (nat (dimension + 1)) (getShape t)))))"
        using "1.IH" [OF True get nz noov] True "1.prems" nonneg noov by simp
      from True "1.prems" have len: "nat i < length (take (nat (dimension + 1)) (getShape t))"
        by simp
      have split: "drop (nat i) (take (nat (dimension + 1)) (getShape t)) =
          ?d # drop (nat (i + 1)) (take (nat (dimension + 1)) (getShape t))"
        using Cons_nth_drop_Suc [OF len, symmetric] True "1.prems"
        by (simp add: nat_add_distrib)
      have rest: "0 \<le> prod_list (drop (nat (i + 1)) (take (nat (dimension + 1)) (getShape t)))"
      proof (rule prod_list_nonneg)
        fix x assume "x \<in> set (drop (nat (i + 1)) (take (nat (dimension + 1)) (getShape t)))"
        then obtain k where k: "k < length (drop (nat (i + 1)) (take (nat (dimension + 1)) (getShape t)))"
          and x: "x = drop (nat (i + 1)) (take (nat (dimension + 1)) (getShape t)) ! k"
          by (auto simp: in_set_conv_nth)
        from k x "1.prems" True have "x = getShape t ! nat (i + 1 + int k)"
          by (simp add: nat_add_distrib)
        moreover from k "1.prems" True have "i \<le> i + 1 + int k \<and> i + 1 + int k \<le> dimension"
          by simp
        ultimately show "0 \<le> x" using "1.prems"(5) by (metis less_imp_le)
      qed
      show ?thesis
        using True noov IH
        by (subst stride_loop.simps) (simp add: get nz split eq zdiv_zmult2_eq rest)
    qed
  qed
qed

lemma prod_list_pos_int:
  "\<forall>d\<in>set ds. 0 < d \<Longrightarrow> 0 < prod_list ds" for ds :: "int list"
  by (induction ds) simp_all

lemma prod_take_drop:
  "prod_list (take n ds) * prod_list (drop n ds) = prod_list ds" for ds :: "int list"
  using prod_list.append [of "take n ds" "drop n ds"] by simp

lemma leading_pos:
  fixes ds :: "int list"
  assumes "\<forall>j\<le>n. 0 < ds ! j" and "n < length ds"
  shows "\<forall>d\<in>set (take (Suc n) ds). 0 < d"
proof
  fix d assume "d \<in> set (take (Suc n) ds)"
  then obtain k where "k < length (take (Suc n) ds)" and "d = take (Suc n) ds ! k"
    by (auto simp: in_set_conv_nth)
  with assms show "0 < d" by simp
qed

lemma trailing_stride:
  fixes ds :: "int list"
  assumes "\<forall>j\<le>n. 0 < ds ! j" and "n < length ds"
  shows "prod_list ds div prod_list (take (Suc n) ds) = prod_list (drop (Suc n) ds)"
proof -
  have "0 < prod_list (take (Suc n) ds)"
    using leading_pos [OF assms] by (rule prod_list_pos_int)
  then show ?thesis
    using prod_take_drop [of "Suc n" ds, symmetric] by simp
qed

lemma values_loop_map:
  assumes "output_size \<le> INT_MAX" and "output_size \<le> i \<or> (s \<noteq> 0 \<and> m \<noteq> 0)"
  shows "values_loop bw output_size s m i cv vs =
           Inr (vs @ map (\<lambda>j. APInt bw (((cv + (j - i)) sdiv s) smod m)) [i..output_size - 1])"
  using assms
proof (induction bw output_size s m i cv vs rule: values_loop.induct)
  case (1 bw output_size s m i cv vs)
  show ?case
  proof (cases "i < output_size")
    case False
    then show ?thesis by (simp add: values_loop.simps)
  next
    case True
    with "1.prems" have nz: "\<not> (s = 0 \<or> m = 0)" and noov: "i \<noteq> INT_MAX" by auto
    have IH: "values_loop bw output_size s m (i + 1) (cv + 1) (vs @ [APInt bw ((cv sdiv s) smod m)]) =
        Inr ((vs @ [APInt bw ((cv sdiv s) smod m)]) @
             map (\<lambda>j. APInt bw (((cv + 1 + (j - (i + 1))) sdiv s) smod m)) [i + 1..output_size - 1])"
      using "1.IH" [OF True nz refl refl noov] "1.prems" nz by simp
    from True have up: "[i..output_size - 1] = i # [i + 1..output_size - 1]"
      by (simp add: upto_rec1)
    show ?thesis
      using True nz noov IH
      by (subst values_loop.simps) (simp add: up Let_def)
  qed
qed


lemma dim_le_prod:
  fixes ds :: "int list"
  shows "\<forall>d\<in>set ds. 0 < d \<Longrightarrow> i < length ds \<Longrightarrow> ds ! i \<le> prod_list ds"
proof (induction ds arbitrary: i)
  case Nil
  then show ?case by simp
next
  case (Cons d ds)
  from Cons.prems have d: "1 \<le> d" and rest: "1 \<le> prod_list ds"
    using prod_list_pos_int [of ds] by auto
  show ?case
  proof (cases i)
    case 0
    from d rest have "d * 1 \<le> d * prod_list ds" by (intro mult_left_mono) simp_all
    with 0 show ?thesis by simp
  next
    case (Suc j)
    with Cons have "ds ! j \<le> prod_list ds" by simp
    also from d rest have "1 * prod_list ds \<le> d * prod_list ds"
      by (intro mult_right_mono) simp_all
    finally show ?thesis using Suc by simp
  qed
qed

lemma static_nonempty_pos:
  fixes ds :: "int list"
  assumes "\<forall>d\<in>set ds. 0 \<le> d" and "0 < prod_list ds"
  shows "\<forall>d\<in>set ds. 0 < d"
proof
  fix d assume d: "d \<in> set ds"
  from assms(2) have "prod_list ds \<noteq> 0" by simp
  then have "0 \<notin> set ds" by (simp add: prod_list_zero_iff)
  with d have "d \<noteq> 0" by auto
  with assms(1) d show "0 < d" by force
qed

lemma APInt_small:
  assumes "0 \<le> v" and "v < INT_MAX"
  shows "APInt bw v = v mod 2 ^ bw"
proof -
  from assms have "v mod 2 ^ 64 = v" by (simp add: INT_MAX_def)
  then show ?thesis by (simp add: APInt_def)
qed

lemma ConvertIotaOp_APInt:
  assumes elt: "getElementType t = IntegerType bw"
    and num: "getNumElements t = Inr output_size"
    and dim: "0 \<le> dim" "dim < int (length (getShape t))" "dim < INT_MAX"
    and lead: "\<forall>j\<le>nat dim. 0 < getShape t ! j"
    and tot: "output_size \<le> INT_MAX"
  shows "ConvertIotaOp (IotaOp t dim) rw =
    Inr (matchSuccess,
         rw @ [(IotaOp t dim,
                ConstantOp (DenseIntElementsAttr t
                  (map (\<lambda>k. APInt bw ((k sdiv trailing_size (getShape t) (nat dim))
                                        smod (getShape t ! nat dim)))
                       [0..output_size - 1])))])"
proof -
  let ?shape = "getShape t"
  let ?m = "?shape ! nat dim"
  let ?stride = "trailing_size ?shape (nat dim)"
  from num have output_size: "output_size = prod_list ?shape" and static: "\<forall>d\<in>set ?shape. 0 \<le> d"
    by (rule getNumElements_Inr)+
  from static have nonneg: "0 \<le> output_size" unfolding output_size by (intro prod_list_nonneg) simp
  from dim have n: "nat dim < length ?shape" by simp
  from dim have get: "getDimSize t dim = Inr ?m" by (simp add: getDimSize_def)
  from lead have m: "0 < ?m" by simp
  have lead': "\<forall>j. 0 \<le> j \<and> j \<le> dim \<longrightarrow> 0 < ?shape ! nat j"
    using lead by (simp add: nat_le_iff)
  have "stride_loop t dim 0 output_size =
      Inr (output_size div prod_list (drop (nat 0) (take (nat (dim + 1)) ?shape)))"
    using stride_loop_result [of 0 dim t output_size] dim lead' nonneg
    by (simp add: INT_MAX_def)
  moreover from dim have "nat (dim + 1) = Suc (nat dim)" by simp
  ultimately have stride: "stride_loop t dim 0 output_size = Inr ?stride"
    using trailing_stride [OF lead n] by (simp add: output_size trailing_size_def)
  have "output_size \<le> 0 \<or> (?stride \<noteq> 0 \<and> ?m \<noteq> 0)"
  proof (cases "?stride = 0")
    case True
    then have "output_size = 0"
      using prod_take_drop [of "Suc (nat dim)" ?shape] by (simp add: output_size trailing_size_def)
    then show ?thesis by simp
  next
    case False
    with m show ?thesis by simp
  qed
  from values_loop_map [OF tot this, of bw 0 "[]"]
  have vals: "values_loop bw output_size ?stride ?m 0 0 [] =
      Inr (map (\<lambda>k. APInt bw ((k sdiv ?stride) smod ?m)) [0..output_size - 1])"
    by simp
  show ?thesis
    by (simp add: elt num get stride vals replaceOpWithNewOp_def)
qed

lemma ConvertIotaOp_wrapped:
  assumes elt: "getElementType t = IntegerType bw"
    and num: "getNumElements t = Inr output_size"
    and dim: "0 \<le> dim" "dim < int (length (getShape t))" "dim < INT_MAX"
    and lead: "\<forall>j\<le>nat dim. 0 < getShape t ! j"
    and tot: "output_size \<le> INT_MAX"
  shows "ConvertIotaOp (IotaOp t dim) rw =
    Inr (matchSuccess,
         rw @ [(IotaOp t dim,
                ConstantOp (DenseIntElementsAttr t
                  (map (\<lambda>k. ((k div trailing_size (getShape t) (nat dim))
                               mod (getShape t ! nat dim)) mod 2 ^ bw)
                       [0..output_size - 1])))])"
proof -
  let ?shape = "getShape t"
  let ?m = "?shape ! nat dim"
  let ?stride = "trailing_size ?shape (nat dim)"
  from num have output_size: "output_size = prod_list ?shape" and static: "\<forall>d\<in>set ?shape. 0 \<le> d"
    by (rule getNumElements_Inr)+
  from dim have n: "nat dim < length ?shape" by simp
  have "map (\<lambda>k. APInt bw ((k sdiv ?stride) smod ?m)) [0..output_size - 1] =
        map (\<lambda>k. ((k div ?stride) mod ?m) mod 2 ^ bw) [0..output_size - 1]"
  proof (rule map_cong [OF refl])
    fix k assume "k \<in> set [0..output_size - 1]"
    then have k: "0 \<le> k" "k < output_size" by simp_all
    then have "0 < prod_list ?shape" by (simp add: output_size)
    with static have pos: "\<forall>d\<in>set ?shape. 0 < d" by (rule static_nonempty_pos)
    then have "\<forall>d\<in>set (drop (Suc (nat dim)) ?shape). 0 < d"
      by (meson in_set_dropD)
    then have stride: "0 < ?stride" unfolding trailing_size_def by (rule prod_list_pos_int)
    from pos n have m: "0 < ?m" by simp
    from dim_le_prod [OF pos n] tot have mle: "?m \<le> INT_MAX" by (simp add: output_size)
    from k stride have "k sdiv ?stride = k div ?stride" by (simp add: sdiv_nonneg)
    moreover from k stride have "0 \<le> k div ?stride" by (simp add: pos_imp_zdiv_nonneg_iff)
    ultimately have v: "(k sdiv ?stride) smod ?m = (k div ?stride) mod ?m"
      using m by (simp add: smod_nonneg)
    from m have "0 \<le> (k div ?stride) mod ?m" and "(k div ?stride) mod ?m < ?m" by simp_all
    with mle have "APInt bw ((k div ?stride) mod ?m) = ((k div ?stride) mod ?m) mod 2 ^ bw"
      by (intro APInt_small) simp_all
    with v show "APInt bw ((k sdiv ?stride) smod ?m) = ((k div ?stride) mod ?m) mod 2 ^ bw"
      by simp
  qed
  with ConvertIotaOp_APInt [OF assms, of rw] show ?thesis by simp
qed


lemma num_elements_loop_no_div0: "num_elements_loop num shape \<noteq> Inl DivisionByZero"
  by (induction shape arbitrary: num) simp_all

lemma getNumElements_no_div0: "getNumElements t \<noteq> Inl DivisionByZero"
  by (simp add: getNumElements_def num_elements_loop_no_div0)

lemma values_loop_no_div0:
  assumes "output_size \<le> i \<or> (s \<noteq> 0 \<and> m \<noteq> 0)"
  shows "values_loop bw output_size s m i cv vs \<noteq> Inl DivisionByZero"
  using assms
proof (induction bw output_size s m i cv vs rule: values_loop.induct)
  case (1 bw output_size s m i cv vs)
  show ?case
  proof (cases "i < output_size")
    case False
    then show ?thesis by (simp add: values_loop.simps)
  next
    case True
    with "1.prems" have nz: "\<not> (s = 0 \<or> m = 0)" by auto
    show ?thesis
    proof (cases "i = INT_MAX")
      case ov: True
      from True nz ov show ?thesis by (subst values_loop.simps) (simp add: Let_def)
    next
      case noov: False
      from "1.IH" [OF True nz refl refl noov] nz
      have "values_loop bw output_size s m (i + 1) (cv + 1)
              (vs @ [APInt bw ((cv sdiv s) smod m)]) \<noteq> Inl DivisionByZero"
        by simp
      with True nz noov show ?thesis by (subst values_loop.simps) (simp add: Let_def)
    qed
  qed
qed

lemma stride_loop_zero:
  assumes "0 \<le> i" and "i \<le> z" and "z \<le> dimension"
    and "dimension < int (length (getShape t))" and "dimension < INT_MAX"
    and "getShape t ! nat z = 0"
  shows "stride_loop t dimension i s = Inl DivisionByZero"
  using assms
proof (induction t dimension i s rule: stride_loop.induct)
  case (1 t dimension i s)
  let ?d = "getShape t ! nat i"
  from "1.prems" have le: "i \<le> dimension" by simp
  from "1.prems" have get: "getDimSize t i = Inr ?d" by (simp add: getDimSize_def)
  from "1.prems" have noov: "i \<noteq> INT_MAX" by simp
  show ?case
  proof (cases "?d = 0")
    case True
    with le get show ?thesis by (subst stride_loop.simps) simp
  next
    case False
    with "1.prems" have "i \<noteq> z" by auto
    with "1.prems" have "i + 1 \<le> z" by simp
    with "1.IH" [OF le get False noov] "1.prems"
    have "stride_loop t dimension (i + 1) (s sdiv ?d) = Inl DivisionByZero" by simp
    with le get False noov show ?thesis by (subst stride_loop.simps) simp
  qed
qed

lemma stride_loop_Inr_D:
  assumes "stride_loop t dimension i s = Inr r" and "0 \<le> i" and "i \<le> j" and "j \<le> dimension"
  shows "j < int (length (getShape t)) \<and> getShape t ! nat j \<noteq> 0 \<and> j \<noteq> INT_MAX"
  using assms
proof (induction t dimension i s rule: stride_loop.induct)
  case (1 t dimension i s)
  from "1.prems" have le: "i \<le> dimension" by simp
  from "1.prems"(1) le obtain d where get: "getDimSize t i = Inr d"
    by (subst (asm) stride_loop.simps) (auto split: sum.splits)
  from "1.prems"(1) le get have nz: "d \<noteq> 0" and noov: "i \<noteq> INT_MAX"
    and rec: "stride_loop t dimension (i + 1) (s sdiv d) = Inr r"
    by (subst (asm) stride_loop.simps; simp split: if_splits)+
  from get "1.prems" have d: "i < int (length (getShape t))" "d = getShape t ! nat i"
    by (auto simp: getDimSize_def split: if_splits)
  show ?case
  proof (cases "j = i")
    case True
    with d nz noov show ?thesis by simp
  next
    case False
    with "1.prems" have "i + 1 \<le> j" by simp
    with "1.IH" [OF le get nz noov rec] "1.prems" show ?thesis by simp
  qed
qed

lemma values_loop_Inr_D:
  assumes "values_loop bw output_size s m i cv vs = Inr r" and "i \<le> INT_MAX"
  shows "output_size \<le> INT_MAX"
  using assms
proof (induction bw output_size s m i cv vs rule: values_loop.induct)
  case (1 bw output_size s m i cv vs)
  show ?case
  proof (cases "i < output_size")
    case False
    with "1.prems" show ?thesis by simp
  next
    case True
    from "1.prems"(1) True have nz: "\<not> (s = 0 \<or> m = 0)" and noov: "i \<noteq> INT_MAX"
      and rec: "values_loop bw output_size s m (i + 1) (cv + 1)
                  (vs @ [APInt bw ((cv sdiv s) smod m)]) = Inr r"
      by (subst (asm) values_loop.simps; simp add: Let_def split: if_splits)+
    from "1.IH" [OF True nz refl refl noov] rec noov "1.prems" show ?thesis by simp
  qed
qed

subsection \<open>The iota pattern: results\<close>

text \<open>
  C7. For a shape of strictly positive dimension sizes and a valid dimension index, the
  stride that the first loop computes by repeated integer division, starting from the
  total element count and dividing by \<open>d0\<close> through \<open>ddim\<close> in turn, is the closed form
  \<open>total / (d0 * ... * ddim)\<close>, and that closed form is the product of the dimension
  sizes after \<open>dim\<close>. The loop counter is a C \<^verbatim>\<open>int\<close>, hence the bound on the index.
\<close>

theorem stride_loop_closed_form:
  assumes pos: "\<forall>d\<in>set (getShape t). 0 < d"
    and dim: "0 \<le> dim" "dim < int (length (getShape t))" "dim < INT_MAX"
  shows "stride_loop t dim 0 (prod_list (getShape t)) = Inr (iota_stride (getShape t) (nat dim)) \<and>
         iota_stride (getShape t) (nat dim) = trailing_size (getShape t) (nat dim)"
proof -
  let ?shape = "getShape t"
  from dim have n: "nat dim < length ?shape" by simp
  from pos n have lead: "\<forall>j\<le>nat dim. 0 < ?shape ! j" by simp
  then have lead': "\<forall>j. 0 \<le> j \<and> j \<le> dim \<longrightarrow> 0 < ?shape ! nat j"
    by (simp add: nat_le_iff)
  from pos have "0 \<le> prod_list ?shape"
    using prod_list_pos_int [of ?shape] by simp
  with stride_loop_result [of 0 dim t "prod_list ?shape"] dim lead'
  have "stride_loop t dim 0 (prod_list ?shape) =
      Inr (prod_list ?shape div prod_list (drop (nat 0) (take (nat (dim + 1)) ?shape)))"
    by (simp add: INT_MAX_def)
  moreover from dim have "nat (dim + 1) = Suc (nat dim)" by simp
  ultimately have "stride_loop t dim 0 (prod_list ?shape) = Inr (iota_stride ?shape (nat dim))"
    by (simp add: iota_stride_def)
  moreover have "iota_stride ?shape (nat dim) = trailing_size ?shape (nat dim)"
    using trailing_stride [OF lead n] by (simp add: iota_stride_def trailing_size_def)
  ultimately show ?thesis by simp
qed

theorem stride_loop_closed_form_witness:
  "stride_loop \<lparr>getShape = [2, 3, 4], getElementType = IntegerType 32\<rparr> 1 0 24 = Inr 4 \<and>
   iota_stride [2, 3, 4] 1 = 4 \<and> trailing_size [2, 3, 4] 1 = 4"
proof -
  let ?t = "\<lparr>getShape = [2, 3, 4], getElementType = IntegerType 32\<rparr>"
  have "\<forall>d\<in>set (getShape ?t). 0 < d" and "(0::int) \<le> 1"
    and "1 < int (length (getShape ?t))" and "1 < INT_MAX"
    by (simp_all add: INT_MAX_def)
  from stride_loop_closed_form [OF this]
  show ?thesis by (simp add: trailing_size_def)
qed

text \<open>
  C9. With a valid dimension index: when every dimension size at index 0 through \<open>dim\<close>
  is strictly positive, no division of the iota pattern has a zero divisor, neither in
  the stride loop nor per element; when a dimension at or before \<open>dim\<close> has size zero
  (on a static shape whose element count the library can compute), the stride loop
  divides by zero and the pattern aborts there.
\<close>

theorem ConvertIotaOp_division_by_zero:
  assumes dim: "0 \<le> dim" "dim < int (length (getShape t))"
  shows "((\<forall>j\<le>nat dim. 0 < getShape t ! j) \<longrightarrow>
            ConvertIotaOp (IotaOp t dim) rewriter \<noteq> Inl DivisionByZero) \<and>
         (getElementType t = IntegerType bw \<and> getNumElements t = Inr output_size \<and>
          dim < INT_MAX \<and> (\<exists>j\<le>nat dim. getShape t ! j = 0) \<longrightarrow>
            stride_loop t dim 0 output_size = Inl DivisionByZero \<and>
            ConvertIotaOp (IotaOp t dim) rewriter = Inl DivisionByZero)"
proof (intro conjI impI)
  let ?shape = "getShape t"
  let ?m = "?shape ! nat dim"
  assume lead: "\<forall>j\<le>nat dim. 0 < ?shape ! j"
  from dim have get: "getDimSize t dim = Inr ?m" by (simp add: getDimSize_def)
  from lead have m: "0 < ?m" by simp
  from dim have n: "nat dim < length ?shape" by simp
  have lead': "\<forall>j. 0 \<le> j \<and> j \<le> dim \<longrightarrow> 0 < ?shape ! nat j"
    using lead by (simp add: nat_le_iff)
  show "ConvertIotaOp (IotaOp t dim) rewriter \<noteq> Inl DivisionByZero"
  proof (cases "getElementType t")
    case (IntegerType bitwidth)
    show ?thesis
    proof (cases "getNumElements t")
      case (Inl e)
      with getNumElements_no_div0 [of t] have "e \<noteq> DivisionByZero" by auto
      with IntegerType Inl show ?thesis by simp
    next
      case (Inr n)
      then have total: "n = prod_list ?shape" and static: "\<forall>d\<in>set ?shape. 0 \<le> d"
        by (rule getNumElements_Inr)+
      from static have nonneg: "0 \<le> n" unfolding total by (intro prod_list_nonneg) simp
      have stride: "stride_loop t dim 0 n =
          (if INT_MAX \<le> dim then Inl SignedOverflow
           else Inr (n div prod_list (drop (nat 0) (take (nat (dim + 1)) ?shape))))"
        using stride_loop_result [of 0 dim t n] dim lead' nonneg by (simp add: INT_MAX_def)
      show ?thesis
      proof (cases "INT_MAX \<le> dim")
        case True
        with stride IntegerType Inr get show ?thesis by simp
      next
        case False
        from dim have "nat (dim + 1) = Suc (nat dim)" by simp
        with stride False have s: "stride_loop t dim 0 n = Inr (trailing_size ?shape (nat dim))"
          using trailing_stride [OF lead n] by (simp add: total trailing_size_def)
        have "n \<le> 0 \<or> (trailing_size ?shape (nat dim) \<noteq> 0 \<and> ?m \<noteq> 0)"
        proof (cases "trailing_size ?shape (nat dim) = 0")
          case True
          then have "n = 0"
            using prod_take_drop [of "Suc (nat dim)" ?shape] by (simp add: total trailing_size_def)
          then show ?thesis by simp
        next
          case False
          with m show ?thesis by simp
        qed
        from values_loop_no_div0 [OF this, of bitwidth 0 "[]"]
        have "values_loop bitwidth n (trailing_size ?shape (nat dim)) ?m 0 0 [] \<noteq> Inl DivisionByZero" .
        with IntegerType Inr get s show ?thesis by (auto split: sum.splits)
      qed
    qed
  qed simp_all
next
  assume a: "getElementType t = IntegerType bw \<and> getNumElements t = Inr output_size \<and>
          dim < INT_MAX \<and> (\<exists>j\<le>nat dim. getShape t ! j = 0)"
  then obtain j where j: "j \<le> nat dim" "getShape t ! j = 0" by blast
  from dim have get: "getDimSize t dim = Inr (getShape t ! nat dim)" by (simp add: getDimSize_def)
  from j dim a have "stride_loop t dim 0 output_size = Inl DivisionByZero"
    by (intro stride_loop_zero [where z = "int j"]) simp_all
  then show "stride_loop t dim 0 output_size = Inl DivisionByZero" .
  with a get show "ConvertIotaOp (IotaOp t dim) rewriter = Inl DivisionByZero" by simp
qed


theorem ConvertIotaOp_division_by_zero_witness:
  "ConvertIotaOp (IotaOp \<lparr>getShape = [2, 3], getElementType = IntegerType 32\<rparr> 1) [] \<noteq>
     Inl DivisionByZero \<and>
   stride_loop \<lparr>getShape = [0, 3], getElementType = IntegerType 32\<rparr> 1 0 0 =
     Inl DivisionByZero \<and>
   ConvertIotaOp (IotaOp \<lparr>getShape = [0, 3], getElementType = IntegerType 32\<rparr> 1) [] =
     Inl DivisionByZero"
proof -
  let ?t = "\<lparr>getShape = [2, 3], getElementType = IntegerType 32\<rparr>"
  let ?z = "\<lparr>getShape = [0, 3], getElementType = IntegerType 32\<rparr>"
  have dim: "(0::int) \<le> 1" "1 < int (length (getShape ?t))" by simp_all
  have dimz: "(0::int) \<le> 1" "1 < int (length (getShape ?z))" by simp_all
  have lead: "\<forall>j\<le>nat 1. 0 < getShape ?t ! j"
    by (simp add: le_Suc_eq)
  have zero: "getElementType ?z = IntegerType 32 \<and> getNumElements ?z = Inr 0 \<and>
      1 < INT_MAX \<and> (\<exists>j\<le>nat 1. getShape ?z ! j = 0)"
    by (auto simp: getNumElements_def hasStaticShape_def INT64_MAX_def INT_MAX_def)
  from ConvertIotaOp_division_by_zero [OF dim, where rewriter = "[]"] lead
    ConvertIotaOp_division_by_zero
      [OF dimz, where bw = 32 and output_size = 0 and rewriter = "[]"] zero
  show ?thesis by blast
qed

text \<open>
  The conditions under which the iota pattern replaces an operation at all. They are the
  hypotheses of the two results below; outside them the pattern aborts or does not match.
\<close>

lemma ConvertIotaOp_matchSuccess_D:
  assumes "ConvertIotaOp (IotaOp t dim) rewriter = Inr (matchSuccess, rewriter')"
  shows "\<exists>bw output_size. getElementType t = IntegerType bw \<and>
           getNumElements t = Inr output_size \<and> output_size \<le> INT_MAX \<and>
           0 \<le> dim \<and> dim < int (length (getShape t)) \<and> dim < INT_MAX \<and>
           (\<forall>j\<le>nat dim. 0 < getShape t ! j)"
proof (cases "getElementType t")
  case (IntegerType bw)
  from assms IntegerType obtain n where num: "getNumElements t = Inr n"
    by (auto split: sum.splits)
  from assms IntegerType num obtain m where get: "getDimSize t dim = Inr m"
    by (auto split: sum.splits)
  from assms IntegerType num get obtain s where stride: "stride_loop t dim 0 n = Inr s"
    by (auto split: sum.splits)
  from assms IntegerType num get stride obtain vs where
    vals: "values_loop bw n s m 0 0 [] = Inr vs"
    by (auto split: sum.splits)
  from get have dim: "0 \<le> dim" "dim < int (length (getShape t))"
    by (auto simp: getDimSize_def split: if_splits)
  from values_loop_Inr_D [OF vals] have tot: "n \<le> INT_MAX" by (simp add: INT_MAX_def)
  have noov: "dim < INT_MAX"
  proof (rule ccontr)
    assume "\<not> dim < INT_MAX"
    then have "INT_MAX \<le> dim" by simp
    from stride_loop_Inr_D [OF stride _ _ this] show False by (simp add: INT_MAX_def)
  qed
  from num have static: "\<forall>d\<in>set (getShape t). 0 \<le> d" by (rule getNumElements_Inr)
  have "\<forall>j\<le>nat dim. 0 < getShape t ! j"
  proof (intro allI impI)
    fix j assume j: "j \<le> nat dim"
    with dim have "int j \<le> dim" by simp
    from stride_loop_Inr_D [OF stride _ _ this] have "getShape t ! j \<noteq> 0" by simp
    moreover from j dim static have "0 \<le> getShape t ! j" by simp
    ultimately show "0 < getShape t ! j" by simp
  qed
  with IntegerType num tot dim noov show ?thesis by simp
qed (use assms in simp_all)

text \<open>
  C10. The iota pattern stores each element as an integer of the result's bitwidth: the
  value at flat index \<open>k\<close> of the constant it creates is
  \<open>((k / stride) mod shape[dim]) mod 2 ^ bitwidth\<close>, with \<open>stride\<close> the product of the
  dimension sizes after \<open>dim\<close>. When \<open>shape[dim]\<close> exceeds \<open>2 ^ bitwidth\<close> (and the
  tensor is not empty) the stored sequence is not the sequence of coordinates.
\<close>

theorem ConvertIotaOp_stores_wrapped:
  assumes elt: "getElementType t = IntegerType bw"
    and num: "getNumElements t = Inr output_size"
    and tot: "output_size \<le> INT_MAX"
    and dim: "0 \<le> dim" "dim < int (length (getShape t))" "dim < INT_MAX"
    and lead: "\<forall>j\<le>nat dim. 0 < getShape t ! j"
  shows "ConvertIotaOp (IotaOp t dim) rewriter =
           Inr (matchSuccess,
                rewriter @ [(IotaOp t dim,
                  ConstantOp (DenseIntElementsAttr t
                    (map (\<lambda>k. ((k div trailing_size (getShape t) (nat dim))
                                 mod (getShape t ! nat dim)) mod 2 ^ bw)
                         [0..output_size - 1])))]) \<and>
         (2 ^ bw < getShape t ! nat dim \<and> 0 < output_size \<longrightarrow>
            map (\<lambda>k. ((k div trailing_size (getShape t) (nat dim))
                        mod (getShape t ! nat dim)) mod 2 ^ bw)
                [0..output_size - 1] \<noteq> iota_coordinates (getShape t) (nat dim))"
proof (intro conjI impI)
  show "ConvertIotaOp (IotaOp t dim) rewriter =
           Inr (matchSuccess,
                rewriter @ [(IotaOp t dim,
                  ConstantOp (DenseIntElementsAttr t
                    (map (\<lambda>k. ((k div trailing_size (getShape t) (nat dim))
                                 mod (getShape t ! nat dim)) mod 2 ^ bw)
                         [0..output_size - 1])))])"
    using elt num dim lead tot by (rule ConvertIotaOp_wrapped)
next
  let ?shape = "getShape t"
  let ?m = "?shape ! nat dim"
  let ?stride = "trailing_size ?shape (nat dim)"
  let ?f = "\<lambda>k. ((k div ?stride) mod ?m) mod 2 ^ bw"
  let ?g = "\<lambda>k. (k div ?stride) mod ?m"
  assume a: "2 ^ bw < ?m \<and> 0 < output_size"
  from num have total: "output_size = prod_list ?shape"
    and static: "\<forall>d\<in>set ?shape. 0 \<le> d"
    by (rule getNumElements_Inr)+
  from dim have n: "nat dim < length ?shape" by simp
  from a static have pos: "\<forall>d\<in>set ?shape. 0 < d"
    by (intro static_nonempty_pos) (simp_all add: total)
  then have "\<forall>d\<in>set (drop (Suc (nat dim)) ?shape). 0 < d"
    by (meson in_set_dropD)
  then have stride: "0 < ?stride" unfolding trailing_size_def by (rule prod_list_pos_int)
  have leadpos: "\<forall>d\<in>set (take (Suc (nat dim)) ?shape). 0 < d"
    using pos by (meson in_set_takeD)
  from n have "nat dim < length (take (Suc (nat dim)) ?shape)" by simp
  from dim_le_prod [OF leadpos this]
  have mle: "?m \<le> prod_list (take (Suc (nat dim)) ?shape)" by simp
  let ?k = "2 ^ bw * ?stride"
  from a stride have "?k < ?m * ?stride" by simp
  also from mle stride have "?m * ?stride \<le> prod_list (take (Suc (nat dim)) ?shape) * ?stride"
    by (intro mult_right_mono) simp_all
  also have "\<dots> = output_size"
    using prod_take_drop [of "Suc (nat dim)" ?shape] by (simp add: total trailing_size_def)
  finally have klt: "?k < output_size" .
  from stride have kge: "0 \<le> ?k" by simp
  from klt kge have mem: "?k \<in> set [0..output_size - 1]" by simp
  from stride have kdiv: "?k div ?stride = 2 ^ bw" by simp
  from a have gk: "?g ?k = 2 ^ bw" by (simp add: kdiv)
  then have fk: "?f ?k = 0" by simp
  show "map ?f [0..output_size - 1] \<noteq> iota_coordinates ?shape (nat dim)"
  proof
    assume "map ?f [0..output_size - 1] = iota_coordinates ?shape (nat dim)"
    then have "map ?f [0..output_size - 1] = map ?g [0..output_size - 1]"
      by (simp add: iota_coordinates_def total)
    with mem have "?f ?k = ?g ?k" by (simp only: map_eq_conv)
    with fk gk show False by simp
  qed
qed

theorem ConvertIotaOp_stores_wrapped_witness:
  "ConvertIotaOp (IotaOp \<lparr>getShape = [5], getElementType = IntegerType 2\<rparr> 0) [] =
     Inr (matchSuccess,
          [(IotaOp \<lparr>getShape = [5], getElementType = IntegerType 2\<rparr> 0,
            ConstantOp (DenseIntElementsAttr \<lparr>getShape = [5], getElementType = IntegerType 2\<rparr>
              [0, 1, 2, 3, 0]))]) \<and>
   [0, 1, 2, 3, 0] \<noteq> iota_coordinates [5] 0"
proof -
  let ?t = "\<lparr>getShape = [5], getElementType = IntegerType 2\<rparr>"
  have "getElementType ?t = IntegerType 2" and "getNumElements ?t = Inr 5"
    and "(5::int) \<le> INT_MAX" and "(0::int) \<le> 0" and "0 < int (length (getShape ?t))"
    and "0 < INT_MAX" and "\<forall>j\<le>nat 0. 0 < getShape ?t ! j"
    by (simp_all add: getNumElements_def hasStaticShape_def INT64_MAX_def INT_MAX_def)
  note r = ConvertIotaOp_stores_wrapped [OF this, where rewriter = "[]"]
  have vals: "map (\<lambda>k. ((k div trailing_size (getShape ?t) (nat 0)) mod (getShape ?t ! nat 0))
                         mod 2 ^ 2) [0..5 - 1] = [0, 1, 2, 3, 0]"
    by code_simp
  have wraps: "2 ^ 2 < getShape ?t ! nat 0 \<and> (0::int) < 5" by simp
  have sh: "getShape ?t = [5]" "nat 0 = 0" by simp_all
  from r [THEN conjunct1, unfolded vals append_Nil]
    r [THEN conjunct2, THEN mp, OF wraps, unfolded vals, unfolded sh]
  show ?thesis by (rule conjI)
qed

text \<open>
  C1, as stated: every integer iota is replaced by the constant holding at flat index \<open>k\<close>
  the coordinate \<open>(k / stride) mod shape[dim]\<close>. It fails for \<^verbatim>\<open>tensor<257xi8>\<close>: the last
  coordinate is 256, the element stored is 0.
\<close>

theorem ConvertIotaOp_coordinates_counterexample:
  "ConvertIotaOp (IotaOp \<lparr>getShape = [257], getElementType = IntegerType 8\<rparr> 0) [] \<noteq>
     Inr (matchSuccess,
          [(IotaOp \<lparr>getShape = [257], getElementType = IntegerType 8\<rparr> 0,
            ConstantOp (DenseIntElementsAttr \<lparr>getShape = [257], getElementType = IntegerType 8\<rparr>
              (iota_coordinates [257] 0)))]) \<and>
   ConvertIotaOp (IotaOp \<lparr>getShape = [257], getElementType = IntegerType 8\<rparr> 0) [] =
     Inr (matchSuccess,
          [(IotaOp \<lparr>getShape = [257], getElementType = IntegerType 8\<rparr> 0,
            ConstantOp (DenseIntElementsAttr \<lparr>getShape = [257], getElementType = IntegerType 8\<rparr>
              (iota_coordinates [256] 0 @ [0])))]) \<and>
   iota_coordinates [257] 0 = iota_coordinates [256] 0 @ [256]"
  by code_simp

text \<open>
  C1, amended. For an iota operation with an integer result element type of bitwidth \<open>b\<close>,
  a static shape with at most \<open>INT_MAX\<close> elements, a valid dimension index \<open>dim\<close>,
  strictly positive dimension sizes at indices 0 through \<open>dim\<close>, and
  \<open>shape[dim] \<le> 2 ^ b\<close>, the pattern replaces the operation with a dense constant of the
  same type whose flat row-major sequence holds at every index \<open>k\<close> in \<open>[0, total)\<close> the
  value \<open>(k / stride) mod shape[dim]\<close>, \<open>stride\<close> being the product of the dimension
  sizes after \<open>dim\<close>. Shape \<open>[2,3]\<close> gives \<open>[0,1,2,0,1,2]\<close> for dimension 1 and
  \<open>[0,0,0,1,1,1]\<close> for dimension 0.
\<close>

theorem ConvertIotaOp_coordinates:
  assumes elt: "getElementType t = IntegerType bw"
    and num: "getNumElements t = Inr output_size"
    and tot: "output_size \<le> INT_MAX"
    and dim: "0 \<le> dim" "dim < int (length (getShape t))" "dim < INT_MAX"
    and lead: "\<forall>j\<le>nat dim. 0 < getShape t ! j"
    and fits: "getShape t ! nat dim \<le> 2 ^ bw"
  shows "ConvertIotaOp (IotaOp t dim) rewriter =
           Inr (matchSuccess,
                rewriter @ [(IotaOp t dim,
                  ConstantOp (DenseIntElementsAttr t (iota_coordinates (getShape t) (nat dim))))])"
proof -
  let ?shape = "getShape t"
  let ?m = "?shape ! nat dim"
  let ?stride = "trailing_size ?shape (nat dim)"
  from num have total: "output_size = prod_list ?shape" by (rule getNumElements_Inr)
  from lead have m: "0 < ?m" by simp
  have "map (\<lambda>k. ((k div ?stride) mod ?m) mod 2 ^ bw) [0..output_size - 1] =
        map (\<lambda>k. (k div ?stride) mod ?m) [0..output_size - 1]"
  proof (rule map_cong [OF refl])
    fix k assume "k \<in> set [0..output_size - 1]"
    from m have "0 \<le> (k div ?stride) mod ?m" and "(k div ?stride) mod ?m < ?m" by simp_all
    with fits show "((k div ?stride) mod ?m) mod 2 ^ bw = (k div ?stride) mod ?m"
      by simp
  qed
  with ConvertIotaOp_wrapped [OF elt num dim lead tot, of rewriter]
  show ?thesis by (simp add: iota_coordinates_def total)
qed

theorem ConvertIotaOp_coordinates_witness:
  "ConvertIotaOp (IotaOp \<lparr>getShape = [2, 3], getElementType = IntegerType 32\<rparr> 1) [] =
     Inr (matchSuccess,
          [(IotaOp \<lparr>getShape = [2, 3], getElementType = IntegerType 32\<rparr> 1,
            ConstantOp (DenseIntElementsAttr \<lparr>getShape = [2, 3], getElementType = IntegerType 32\<rparr>
              [0, 1, 2, 0, 1, 2]))]) \<and>
   ConvertIotaOp (IotaOp \<lparr>getShape = [2, 3], getElementType = IntegerType 32\<rparr> 0) [] =
     Inr (matchSuccess,
          [(IotaOp \<lparr>getShape = [2, 3], getElementType = IntegerType 32\<rparr> 0,
            ConstantOp (DenseIntElementsAttr \<lparr>getShape = [2, 3], getElementType = IntegerType 32\<rparr>
              [0, 0, 0, 1, 1, 1]))])"
proof -
  let ?t = "\<lparr>getShape = [2, 3], getElementType = IntegerType 32\<rparr>"
  have common: "getElementType ?t = IntegerType 32" "getNumElements ?t = Inr 6"
    "(6::int) \<le> INT_MAX"
    by (simp_all add: getNumElements_def hasStaticShape_def INT64_MAX_def INT_MAX_def)
  have one: "(0::int) \<le> 1" "1 < int (length (getShape ?t))" "1 < INT_MAX"
    "\<forall>j\<le>nat 1. 0 < getShape ?t ! j" "getShape ?t ! nat 1 \<le> 2 ^ 32"
    by (simp_all add: INT_MAX_def le_Suc_eq)
  have zero: "(0::int) \<le> 0" "0 < int (length (getShape ?t))" "0 < INT_MAX"
    "\<forall>j\<le>nat 0. 0 < getShape ?t ! j" "getShape ?t ! nat 0 \<le> 2 ^ 32"
    by (simp_all add: INT_MAX_def)
  have c1: "iota_coordinates (getShape ?t) (nat 1) = [0, 1, 2, 0, 1, 2]"
    and c0: "iota_coordinates (getShape ?t) (nat 0) = [0, 0, 0, 1, 1, 1]"
    by code_simp+
  from ConvertIotaOp_coordinates [OF common one, where rewriter = "[]", unfolded c1 append_Nil]
    ConvertIotaOp_coordinates [OF common zero, where rewriter = "[]", unfolded c0 append_Nil]
  show ?thesis by (rule conjI)
qed

subsection \<open>The pass: results\<close>

text \<open>A sweep without replacements returns the body it was given.\<close>

lemma sweep_zero:
  "sweep patterns body = Inr (body', 0) \<Longrightarrow> body' = body"
proof (induction body arbitrary: body')
  case Nil
  then show ?case by simp
next
  case (Cons op ops)
  from Cons.prems obtain replaced where r: "apply_first patterns op = Inr replaced"
    by (auto split: sum.splits)
  from Cons.prems r obtain ops' n where s: "sweep patterns ops = Inr (ops', n)"
    by (auto split: sum.splits)
  from Cons.prems r s have "replaced = None" and "n = 0" and "body' = op # ops'"
    by (auto split: option.splits)
  with s Cons.IH [of ops'] show ?case by simp
qed

text \<open>
  Induction over the sweeps of a run of the driver that returns: the run ends in the abort
  of a pattern, or in a sweep without replacements, or starts with a sweep that replaces
  something.
\<close>

lemma applyPatternsGreedily_induct:
  assumes run: "applyPatternsGreedily patterns body = Some r"
    and err: "\<And>body e. sweep patterns body = Inl e \<Longrightarrow> P body (Inl e)"
    and stop: "\<And>body body'. sweep patterns body = Inr (body', 0) \<Longrightarrow> P body (Inr body')"
    and step: "\<And>body body' n r. sweep patterns body = Inr (body', n) \<Longrightarrow> n \<noteq> 0 \<Longrightarrow>
                 P body' r \<Longrightarrow> P body r"
  shows "P body r"
proof -
  have "patterns = patterns \<longrightarrow> P body r"
  proof (rule applyPatternsGreedily.raw_induct
      [where P = "\<lambda>ps b r. ps = patterns \<longrightarrow> P b r", OF _ run])
    fix driver ps b y
    assume IH: "\<And>ps b y. driver ps b = Some y \<Longrightarrow> ps = patterns \<longrightarrow> P b y"
      and body: "(case sweep ps b of
                    Inl e \<Rightarrow> Some (Inl e)
                  | Inr (body', replacements) \<Rightarrow>
                      if replacements = 0 then Some (Inr body') else driver ps body') = Some y"
    show "ps = patterns \<longrightarrow> P b y"
    proof
      assume ps: "ps = patterns"
      show "P b y"
      proof (cases "sweep patterns b")
        case (Inl e)
        with body ps have "y = Inl e" by simp
        with Inl show ?thesis by (simp add: err)
      next
        case (Inr p)
        obtain b' n where p: "p = (b', n)" by (cases p)
        show ?thesis
        proof (cases "n = 0")
          case True
          with Inr p body ps have "y = Inr b'" by simp
          with Inr p True show ?thesis by (simp add: stop)
        next
          case False
          with Inr p body ps have "driver patterns b' = Some y" by simp
          with IH have "P b' y" by simp
          with Inr p False show ?thesis by (auto intro: step)
        qed
      qed
    qed
  qed
  then show ?thesis by simp
qed

lemma applyPatternsGreedily_converged:
  assumes "applyPatternsGreedily patterns body = Some (Inr body')"
  shows "sweep patterns body' = Inr (body', 0)"
proof -
  have "\<forall>b. (Inr body' :: error + operation list) = Inr b \<longrightarrow>
          sweep patterns b = Inr (b, 0)"
  proof (rule applyPatternsGreedily_induct
      [OF assms, where P = "\<lambda>body r. \<forall>b. r = Inr b \<longrightarrow> sweep patterns b = Inr (b, 0)"])
    fix e :: error
    show "\<forall>b. Inl e = Inr b \<longrightarrow> sweep patterns b = Inr (b, 0)" by simp
  next
    fix body b'
    assume "sweep patterns body = Inr (b', 0)"
    then show "\<forall>b. Inr b' = Inr b \<longrightarrow> sweep patterns b = Inr (b, 0)"
      by (auto dest: sweep_zero)
  next
    fix r :: "error + operation list"
    assume "\<forall>b. r = Inr b \<longrightarrow> sweep patterns b = Inr (b, 0)"
    then show "\<forall>b. r = Inr b \<longrightarrow> sweep patterns b = Inr (b, 0)" .
  qed
  then show ?thesis by simp
qed

lemma applyPatternsGreedily_fixed:
  "sweep patterns body = Inr (body, 0) \<Longrightarrow> applyPatternsGreedily patterns body = Some (Inr body)"
  by (subst applyPatternsGreedily.simps) simp

text \<open>An operation that no pattern matches keeps its place through sweeps and runs.\<close>

lemma apply_first_no_match:
  "\<forall>p\<in>set patterns. \<exists>rewriter. p op [] = Inr (matchFailure, rewriter) \<Longrightarrow>
   apply_first patterns op = Inr None"
  by (induction patterns) auto

lemma sweep_keeps:
  "sweep patterns body = Inr (body', n) \<Longrightarrow>
   length body' = length body \<and>
   (\<forall>i<length body. apply_first patterns (body ! i) = Inr None \<longrightarrow> body' ! i = body ! i)"
proof (induction body arbitrary: body' n)
  case Nil
  then show ?case by simp
next
  case (Cons op ops)
  from Cons.prems obtain replaced where r: "apply_first patterns op = Inr replaced"
    by (auto split: sum.splits)
  from Cons.prems r obtain ops' m where s: "sweep patterns ops = Inr (ops', m)"
    by (auto split: sum.splits)
  from Cons.IH [OF s] have len: "length ops' = length ops"
    and keep: "\<forall>i<length ops. apply_first patterns (ops ! i) = Inr None \<longrightarrow> ops' ! i = ops ! i"
    by simp_all
  from Cons.prems r s obtain x where b: "body' = x # ops'" and x: "replaced = None \<longrightarrow> x = op"
    by (auto split: option.splits)
  show ?case
  proof (intro conjI allI impI)
    show "length body' = length (op # ops)" using b len by simp
  next
    fix i assume i: "i < length (op # ops)"
      and nm: "apply_first patterns ((op # ops) ! i) = Inr None"
    show "body' ! i = (op # ops) ! i"
    proof (cases i)
      case 0
      with nm r x b show ?thesis by simp
    next
      case (Suc j)
      with i nm keep b show ?thesis by simp
    qed
  qed
qed

lemma applyPatternsGreedily_keeps:
  assumes run: "applyPatternsGreedily patterns body = Some (Inr body')"
    and nm: "apply_first patterns op = Inr None"
    and i: "i < length body" "body ! i = op"
  shows "i < length body' \<and> body' ! i = op"
proof -
  let ?P = "\<lambda>body (r :: error + operation list). \<forall>b. r = Inr b \<longrightarrow> i < length body \<longrightarrow> body ! i = op \<longrightarrow>
                      i < length b \<and> b ! i = op"
  have "?P body (Inr body')"
  proof (rule applyPatternsGreedily_induct [OF run, where P = ?P])
    fix body :: "operation list" and e :: error
    show "?P body (Inl e)" by simp
  next
    fix body b'
    assume "sweep patterns body = Inr (b', 0)"
    from sweep_keeps [OF this] nm show "?P body (Inr b')" by auto
  next
    fix body b' n and r :: "error + operation list"
    assume "sweep patterns body = Inr (b', n)" and "?P b' r"
    with sweep_keeps [of patterns body b' n] nm show "?P body r" by auto
  qed
  with i show ?thesis by simp
qed

text \<open>
  C8. The pass is idempotent: on a function body on which the driver has converged (the
  body that a run of the pass returned), a sweep makes zero replacements and returns the
  same body, and running the pass again returns, with that same body.
\<close>

theorem runOnFunction_idempotent:
  assumes "runOnFunction generated body = Some (Inr body')"
  shows "sweep (PopulateXlaToStdPatterns generated) body' = Inr (body', 0) \<and>
         runOnFunction generated body' = Some (Inr body')"
proof -
  from assms have "sweep (PopulateXlaToStdPatterns generated) body' = Inr (body', 0)"
    unfolding runOnFunction_def by (rule applyPatternsGreedily_converged)
  then show ?thesis
    by (simp add: runOnFunction_def applyPatternsGreedily_fixed)
qed

theorem runOnFunction_idempotent_witness:
  "sweep (PopulateXlaToStdPatterns [])
     [CmpIOp slt (Value 0 \<lparr>getShape = [2], getElementType = IntegerType 32\<rparr>)
                 (Value 1 \<lparr>getShape = [2], getElementType = IntegerType 32\<rparr>),
      ConstantOp (DenseIntElementsAttr \<lparr>getShape = [2, 3], getElementType = IntegerType 32\<rparr>
                    [0, 1, 2, 0, 1, 2]),
      OtherOp ''std.return'' []] =
   Inr ([CmpIOp slt (Value 0 \<lparr>getShape = [2], getElementType = IntegerType 32\<rparr>)
                    (Value 1 \<lparr>getShape = [2], getElementType = IntegerType 32\<rparr>),
         ConstantOp (DenseIntElementsAttr \<lparr>getShape = [2, 3], getElementType = IntegerType 32\<rparr>
                       [0, 1, 2, 0, 1, 2]),
         OtherOp ''std.return'' []], 0) \<and>
   runOnFunction []
     [CmpIOp slt (Value 0 \<lparr>getShape = [2], getElementType = IntegerType 32\<rparr>)
                 (Value 1 \<lparr>getShape = [2], getElementType = IntegerType 32\<rparr>),
      ConstantOp (DenseIntElementsAttr \<lparr>getShape = [2, 3], getElementType = IntegerType 32\<rparr>
                    [0, 1, 2, 0, 1, 2]),
      OtherOp ''std.return'' []] =
   Some (Inr [CmpIOp slt (Value 0 \<lparr>getShape = [2], getElementType = IntegerType 32\<rparr>)
                         (Value 1 \<lparr>getShape = [2], getElementType = IntegerType 32\<rparr>),
              ConstantOp (DenseIntElementsAttr \<lparr>getShape = [2, 3], getElementType = IntegerType 32\<rparr>
                            [0, 1, 2, 0, 1, 2]),
              OtherOp ''std.return'' []])"
proof -
  let ?i32 = "\<lparr>getShape = [2], getElementType = IntegerType 32\<rparr>"
  let ?t = "\<lparr>getShape = [2, 3], getElementType = IntegerType 32\<rparr>"
  let ?body = "[CompareOp (Value 0 ?i32) (Value 1 ?i32) ''LT'', IotaOp ?t 1, OtherOp ''std.return'' []]"
  let ?body' = "[CmpIOp slt (Value 0 ?i32) (Value 1 ?i32),
                 ConstantOp (DenseIntElementsAttr ?t [0, 1, 2, 0, 1, 2]),
                 OtherOp ''std.return'' []]"
  have first: "sweep (PopulateXlaToStdPatterns []) ?body = Inr (?body', 2)"
    by code_simp
  have second: "sweep (PopulateXlaToStdPatterns []) ?body' = Inr (?body', 0)"
    by code_simp
  have "applyPatternsGreedily (PopulateXlaToStdPatterns []) ?body =
        applyPatternsGreedily (PopulateXlaToStdPatterns []) ?body'"
    by (subst applyPatternsGreedily.simps) (simp only: first sum.case prod.case, simp)
  also have "\<dots> = Some (Inr ?body')"
    using second by (rule applyPatternsGreedily_fixed)
  finally have "runOnFunction [] ?body = Some (Inr ?body')"
    by (simp only: runOnFunction_def)
  then show ?thesis by (rule runOnFunction_idempotent)
qed


text \<open>
  C6. An iota operation whose result element type is not an integer type (a float or a
  complex type) is not matched by the iota pattern: it returns \<open>matchFailure\<close> and hands
  the rewriter back as it received it. The operation remains in its place, unrewritten,
  in the body that the pass returns, provided no generated pattern matches it (the two
  comparison patterns never do).
\<close>

theorem ConvertIotaOp_unsupported_kind:
  assumes "\<not> isa_IntegerType (getElementType t)"
  shows "ConvertIotaOp (IotaOp t dim) rewriter = Inr (matchFailure, rewriter) \<and>
         ((\<forall>p\<in>set generated. \<exists>rw. p (IotaOp t dim) [] = Inr (matchFailure, rw)) \<and>
          runOnFunction generated body = Some (Inr body') \<and>
          i < length body \<and> body ! i = IotaOp t dim \<longrightarrow>
            i < length body' \<and> body' ! i = IotaOp t dim)"
proof (rule conjI)
  have nomatch: "ConvertIotaOp (IotaOp t dim) rw = Inr (matchFailure, rw)" for rw
    using assms by (cases "getElementType t") simp_all
  then show "ConvertIotaOp (IotaOp t dim) rewriter = Inr (matchFailure, rewriter)" .
  show "(\<forall>p\<in>set generated. \<exists>rw. p (IotaOp t dim) [] = Inr (matchFailure, rw)) \<and>
          runOnFunction generated body = Some (Inr body') \<and>
          i < length body \<and> body ! i = IotaOp t dim \<longrightarrow>
            i < length body' \<and> body' ! i = IotaOp t dim"
  proof (rule impI)
    assume a: "(\<forall>p\<in>set generated. \<exists>rw. p (IotaOp t dim) [] = Inr (matchFailure, rw)) \<and>
          runOnFunction generated body = Some (Inr body') \<and>
          i < length body \<and> body ! i = IotaOp t dim"
    then have "\<forall>p\<in>set (PopulateXlaToStdPatterns generated).
        \<exists>rw. p (IotaOp t dim) [] = Inr (matchFailure, rw)"
      by (auto simp: PopulateXlaToStdPatterns_def nomatch simp del: ConvertIotaOp.simps)
    then have "apply_first (PopulateXlaToStdPatterns generated) (IotaOp t dim) = Inr None"
      by (rule apply_first_no_match)
    moreover from a have "applyPatternsGreedily (PopulateXlaToStdPatterns generated) body =
        Some (Inr body')"
      by (simp add: runOnFunction_def)
    ultimately show "i < length body' \<and> body' ! i = IotaOp t dim"
      using a by (intro applyPatternsGreedily_keeps [where body = body]) simp_all
  qed
qed

theorem ConvertIotaOp_unsupported_kind_witness:
  "ConvertIotaOp (IotaOp \<lparr>getShape = [2, 3], getElementType = FloatType 32\<rparr> 1) [] =
     Inr (matchFailure, []) \<and>
   runOnFunction []
     [CompareOp (Value 0 \<lparr>getShape = [2], getElementType = IntegerType 32\<rparr>)
                (Value 1 \<lparr>getShape = [2], getElementType = IntegerType 32\<rparr>) ''LT'',
      IotaOp \<lparr>getShape = [2, 3], getElementType = FloatType 32\<rparr> 1] =
     Some (Inr [CmpIOp slt (Value 0 \<lparr>getShape = [2], getElementType = IntegerType 32\<rparr>)
                           (Value 1 \<lparr>getShape = [2], getElementType = IntegerType 32\<rparr>),
                IotaOp \<lparr>getShape = [2, 3], getElementType = FloatType 32\<rparr> 1]) \<and>
   [CmpIOp slt (Value 0 \<lparr>getShape = [2], getElementType = IntegerType 32\<rparr>)
               (Value 1 \<lparr>getShape = [2], getElementType = IntegerType 32\<rparr>),
    IotaOp \<lparr>getShape = [2, 3], getElementType = FloatType 32\<rparr> 1] ! 1 =
     IotaOp \<lparr>getShape = [2, 3], getElementType = FloatType 32\<rparr> 1"
proof -
  let ?i32 = "\<lparr>getShape = [2], getElementType = IntegerType 32\<rparr>"
  let ?t = "\<lparr>getShape = [2, 3], getElementType = FloatType 32\<rparr>"
  let ?body = "[CompareOp (Value 0 ?i32) (Value 1 ?i32) ''LT'', IotaOp ?t 1]"
  let ?body' = "[CmpIOp slt (Value 0 ?i32) (Value 1 ?i32), IotaOp ?t 1]"
  have kind: "\<not> isa_IntegerType (getElementType ?t)" by simp
  have first: "sweep (PopulateXlaToStdPatterns []) ?body = Inr (?body', 1)"
    by code_simp
  have second: "sweep (PopulateXlaToStdPatterns []) ?body' = Inr (?body', 0)"
    by code_simp
  have "applyPatternsGreedily (PopulateXlaToStdPatterns []) ?body =
        applyPatternsGreedily (PopulateXlaToStdPatterns []) ?body'"
    by (subst applyPatternsGreedily.simps) (simp only: first sum.case prod.case, simp)
  also have "\<dots> = Some (Inr ?body')"
    using second by (rule applyPatternsGreedily_fixed)
  finally have run: "runOnFunction [] ?body = Some (Inr ?body')"
    by (simp only: runOnFunction_def)
  have hyp: "(\<forall>p\<in>set []. \<exists>rw. p (IotaOp ?t 1) [] = Inr (matchFailure, rw)) \<and>
      runOnFunction [] ?body = Some (Inr ?body') \<and> 1 < length ?body \<and> ?body ! 1 = IotaOp ?t 1"
    using run by simp
  note r = ConvertIotaOp_unsupported_kind [OF kind, where dim = 1 and generated = "[]"
      and body = ?body and body' = ?body' and i = 1]
  from r [where rewriter = "[]", THEN conjunct1] run
    r [where rewriter = "[]", THEN conjunct2, THEN mp, OF hyp, THEN conjunct2]
  show ?thesis by (intro conjI)
qed

end
